theory Spec2Isabelle
  imports Complex_Main "HOL-Library.Word"
begin

section \<open>Values of the host language\<close>

text \<open>
  The program is TypeScript running on Node. A read outside a Buffer gives
  \<open>undefined\<close> instead of raising, and arithmetic on \<open>undefined\<close> gives \<open>NaN\<close>;
  both are values of the model. Finite numbers are exact rationals: the quotient
  \<open>x / 100\<close> is kept exact, the rounding of the IEEE double is not modelled.
\<close>

type_synonym byte = "8 word"

datatype jsval = Undefined | NaN | Num rat

text \<open>A byte read as a number.\<close>

definition byte_num :: "byte \<Rightarrow> rat" where
  "byte_num b = of_nat (unat b)"

text \<open>\<open>buf[i]\<close> on a Buffer: the byte as a number, \<open>undefined\<close> out of range.\<close>

definition buf_at :: "byte list \<Rightarrow> int \<Rightarrow> jsval" where
  "buf_at buf i =
     (if 0 \<le> i \<and> i < int (length buf) then Num (byte_num (buf ! nat i)) else Undefined)"

text \<open>\<open>ToInt32\<close>: truncate towards zero, wrap to 32 bits, read as two's complement.\<close>

definition wrap32 :: "int \<Rightarrow> int" where
  "wrap32 x = (x + 2 ^ 31) mod 2 ^ 32 - 2 ^ 31"

fun to_int32 :: "jsval \<Rightarrow> int" where
  "to_int32 Undefined = 0"
| "to_int32 NaN = 0"
| "to_int32 (Num r) = wrap32 (if 0 \<le> r then \<lfloor>r\<rfloor> else \<lceil>r\<rceil>)"

text \<open>\<open>v << k\<close> for a shift count below 32.\<close>

definition js_shl :: "jsval \<Rightarrow> nat \<Rightarrow> jsval" where
  "js_shl v k = Num (of_int (wrap32 (to_int32 v * 2 ^ k)))"

text \<open>\<open>a + b\<close> on numbers: \<open>undefined\<close> converts to \<open>NaN\<close>, which absorbs.\<close>

fun js_add :: "jsval \<Rightarrow> jsval \<Rightarrow> jsval" where
  "js_add (Num a) (Num b) = Num (a + b)"
| "js_add _ _ = NaN"

text \<open>\<open>v / 100\<close>.\<close>

fun js_div100 :: "jsval \<Rightarrow> jsval" where
  "js_div100 (Num a) = Num (a / 100)"
| "js_div100 _ = NaN"

section \<open>protocol.ts: packets and parseIncomingPacket\<close>

text \<open>
  \<open>BasePacket\<close> has the four fields \<open>packetId\<close>, \<open>len\<close>, \<open>checksum\<close> and \<open>data\<close>.
  The fields that \<open>parseIncomingPacket\<close> assigns afterwards (\<open>scaleType\<close>,
  \<open>weight\<close>) are the object's further properties, kept by name in \<open>props\<close>;
  reading a property the object does not have gives \<open>undefined\<close>.
\<close>

record packet =
  packetId :: jsval
  len :: jsval
  checksum :: jsval
  data :: "byte list"
  props :: "(string \<times> jsval) list"

definition get_prop :: "packet \<Rightarrow> string \<Rightarrow> jsval" where
  "get_prop p key = (case map_of (props p) key of None \<Rightarrow> Undefined | Some v \<Rightarrow> v)"

definition parseIncomingPacket :: "byte list \<Rightarrow> packet" where
  "parseIncomingPacket buf =
     (let packet = \<lparr> packetId = buf_at buf 0, len = buf_at buf 1,
                     checksum = buf_at buf (int (length buf) - 1), data = buf, props = [] \<rparr>
      in if packetId packet = Num 0x12 then packet
         else if packetId packet = Num 0x14 then packet
         else if packetId packet = Num 0x10 then
           packet \<lparr> props :=
             [(''scaleType'', buf_at buf 2),
              (''weight'', js_div100 (js_add (js_shl (buf_at buf 3) 8) (buf_at buf 4)))] \<rparr>
         else packet)"

text \<open>
  The four cases of the \<open>switch (p.packetId)\<close> in \<open>handlePacket\<close>, under the names
  the specification gives them; the \<open>default\<close> branch is \<open>Unrecognized\<close>.
\<close>

datatype variant = HandshakeInit | HandshakeAck | WeightSample | Unrecognized

definition variant_of :: "packet \<Rightarrow> variant" where
  "variant_of p =
     (if packetId p = Num 0x12 then HandshakeInit
      else if packetId p = Num 0x14 then HandshakeAck
      else if packetId p = Num 0x10 then WeightSample
      else Unrecognized)"

text \<open>\<open>const flag = p.data[5]\<close>, the settling flag that \<open>handlePacket\<close> reads.\<close>

definition flag_of :: "packet \<Rightarrow> jsval" where
  "flag_of p = buf_at (data p) 5"

section \<open>The session: a RenphoScale instance and its surroundings\<close>

text \<open>
  \<open>EventName\<close> is the closed set of the four event names; the type excludes any
  other name, so the \<open>Invalid event\<close> branch of \<open>getListeners\<close> has no input here.
\<close>

datatype event = Liveupdate | Measurement | Data | Timeout

datatype arg = PacketArg packet | ValueArg jsval

text \<open>
  The functions that can sit in a listener array. \<open>Callback n\<close> and \<open>Faulty n\<close> are
  functions of the caller, known by their identity \<open>n\<close>: a call of either is recorded;
  \<open>Callback n\<close> then returns, \<open>Faulty n\<close> throws. A caller's function that calls back
  into the instance is outside the model. \<open>OnceWrapper w e h\<close> is the closure
  \<open>wrappedHandler\<close> that \<open>once\<close> builds around \<open>h\<close> for event \<open>e\<close>; \<open>w\<close> numbers the
  closure, so two wrappers of the same function differ. \<open>ResetTimer c\<close> is the listener
  of line 265 registered by the \<open>c\<close>-th call of \<open>startListening\<close>, \<open>RaiseFlag\<close> the
  two listeners that \<open>connectAndHandle\<close> registers.
\<close>

datatype handler =
    Callback nat
  | Faulty nat
  | OnceWrapper nat event handler
  | ResetTimer nat
  | RaiseFlag

fun may_throw :: "handler \<Rightarrow> bool" where
  "may_throw (Faulty n) = True"
| "may_throw (OnceWrapper w e h) = may_throw h"
| "may_throw _ = False"

text \<open>Calls on the two GATT characteristics, in the order made, with their outcome.\<close>

datatype io =
    OnValueChanged
  | OffValueChanged
  | StartNotifications bool
  | StopNotifications bool
  | WriteValue "byte list" bool

datatype logmsg = WarnHandlingPacket | WarnTimeout | WarnUnknownPacket | DebugDestroyError

text \<open>
  The state holds
  \<^item> the fields of the instance: \<open>listeners\<close>, \<open>timeoutHandle\<close>, \<open>eventChar\<close> (whether
    it is set);
  \<^item> the variables of the closures around it. Every call of \<open>startListening\<close> that
    reaches line 236 makes its own \<open>didTimeout\<close>, \<open>handleValueChange\<close>,
    \<open>handleTimeout\<close> and \<open>resetTimer\<close>; the calls are numbered (\<open>nextCall\<close>), and
    \<open>didTimeout s c\<close> is the variable of call \<open>c\<close>. \<open>raiseFlag\<close> is the variable of
    \<open>connectAndHandle\<close>: \<open>None\<close> while unassigned, \<open>Some True\<close> once called;
  \<^item> what the characteristic holds: \<open>valuechanged\<close>, the calls whose
    \<open>handleValueChange\<close> is attached to its \<open>valuechanged\<close> event, in the order
    attached (one instance has one GATT server and so one characteristic object);
  \<^item> what the runtime holds: the \<open>pending\<close> timers, for each timer the call whose
    \<open>handleTimeout\<close> is its callback (\<open>timerCallback\<close>), the results of the
    \<open>stopNotifications\<close> calls not yet settled (\<open>inFlight\<close>), whether an exception is
    propagating (\<open>thrown\<close>), and how many exceptions left a callback uncaught;
  \<^item> counters for fresh timers and closures, and four observation logs: every \<open>emit\<close>,
    every call of a caller's function, every transport call, every log line of
    interest.

  \<open>handlePacket\<close> and \<open>startListening\<close> are run to completion before the next event is
  taken. \<open>destroy\<close>, which no caller awaits, is split at its \<open>await\<close>.
\<close>

record scale =
  listeners :: "event \<Rightarrow> handler list"
  timeoutHandle :: "nat option"
  eventChar :: bool
  didTimeout :: "nat \<Rightarrow> bool"
  raiseFlag :: "bool option"
  valuechanged :: "nat list"
  pending :: "nat list"
  timerCallback :: "nat \<Rightarrow> nat"
  inFlight :: "bool list"
  thrown :: bool
  uncaught :: nat
  nextTimer :: nat
  nextClosure :: nat
  nextCall :: nat
  emitted :: "(event \<times> arg list) list"
  calls :: "(nat \<times> arg list) list"
  transport :: "io list"
  logged :: "logmsg list"

definition new_scale :: scale where
  "new_scale = \<lparr> listeners = (\<lambda>_. []), timeoutHandle = None, eventChar = False,
     didTimeout = (\<lambda>_. False), raiseFlag = None, valuechanged = [], pending = [],
     timerCallback = (\<lambda>_. 0), inFlight = [], thrown = False, uncaught = 0,
     nextTimer = 0, nextClosure = 0, nextCall = 0, emitted = [], calls = [],
     transport = [], logged = [] \<rparr>"

subsection \<open>on, once, off\<close>

definition on :: "event \<Rightarrow> handler option \<Rightarrow> scale \<Rightarrow> scale" where
  "on e h s =
     (case h of None \<Rightarrow> s
      | Some f \<Rightarrow> s \<lparr> listeners := (listeners s)(e := listeners s e @ [f]) \<rparr>)"

definition once :: "event \<Rightarrow> handler option \<Rightarrow> scale \<Rightarrow> scale" where
  "once e h s =
     (case h of None \<Rightarrow> s
      | Some f \<Rightarrow> on e (Some (OnceWrapper (nextClosure s) e f))
                    (s \<lparr> nextClosure := Suc (nextClosure s) \<rparr>))"

text \<open>\<open>findIndex\<close> and \<open>splice(index, 1)\<close> remove the first occurrence.\<close>

definition off :: "event \<Rightarrow> handler option \<Rightarrow> scale \<Rightarrow> scale" where
  "off e h s =
     (case h of None \<Rightarrow> s \<lparr> listeners := (listeners s)(e := []) \<rparr>
      | Some f \<Rightarrow> s \<lparr> listeners := (listeners s)(e := remove1 f (listeners s e)) \<rparr>)"

subsection \<open>The idle timer\<close>

definition clearTimer :: "scale \<Rightarrow> scale" where
  "clearTimer s =
     (case timeoutHandle s of None \<Rightarrow> s
      | Some t \<Rightarrow> s \<lparr> pending := removeAll t (pending s), timeoutHandle := None \<rparr>)"

text \<open>\<open>resetTimer\<close> of call \<open>c\<close>: the new timer's callback is that call's \<open>handleTimeout\<close>.\<close>

definition resetTimer :: "nat \<Rightarrow> scale \<Rightarrow> scale" where
  "resetTimer c s =
     (let s1 = clearTimer s
      in s1 \<lparr> timeoutHandle := Some (nextTimer s1),
              pending := pending s1 @ [nextTimer s1],
              timerCallback := (timerCallback s1)(nextTimer s1 := c),
              nextTimer := Suc (nextTimer s1) \<rparr>)"

subsection \<open>emit\<close>

text \<open>Calling one listener. A listener that throws leaves \<open>thrown\<close> set.\<close>

fun invoke :: "handler \<Rightarrow> arg list \<Rightarrow> scale \<Rightarrow> scale" where
  "invoke (Callback n) args s = s \<lparr> calls := calls s @ [(n, args)] \<rparr>"
| "invoke (Faulty n) args s = s \<lparr> calls := calls s @ [(n, args)], thrown := True \<rparr>"
| "invoke (OnceWrapper w e h) args s = invoke h args (off e (Some (OnceWrapper w e h)) s)"
| "invoke (ResetTimer c) args s = resetTimer c s"
| "invoke RaiseFlag args s =
     (case raiseFlag s of None \<Rightarrow> s | Some _ \<Rightarrow> s \<lparr> raiseFlag := Some True \<rparr>)"

text \<open>
  \<open>Array.prototype.forEach\<close> on the live array: the length is read once, the index
  \<open>k\<close> runs over \<open>0 .. len - 1\<close>, and at each index the element is read from the
  array as it is then; an index that is no longer there is passed over. \<open>n\<close> counts
  the indices still to visit. An exception thrown by a listener ends the loop.
\<close>

fun forEach :: "event \<Rightarrow> arg list \<Rightarrow> nat \<Rightarrow> nat \<Rightarrow> scale \<Rightarrow> scale" where
  "forEach e args k 0 s = s"
| "forEach e args k (Suc n) s =
     (if k < length (listeners s e)
      then (let s' = invoke (listeners s e ! k) args s
            in if thrown s' then s' else forEach e args (Suc k) n s')
      else forEach e args (Suc k) n s)"

definition emit :: "event \<Rightarrow> arg list \<Rightarrow> scale \<Rightarrow> scale" where
  "emit e args s =
     forEach e args 0 (length (listeners s e)) (s \<lparr> emitted := emitted s @ [(e, args)] \<rparr>)"

subsection \<open>sendCommand and handlePacket\<close>

definition sendCommand :: "bool \<Rightarrow> byte list \<Rightarrow> scale \<Rightarrow> bool \<times> scale" where
  "sendCommand ok buf s = (\<not> ok, s \<lparr> transport := transport s @ [WriteValue buf ok] \<rparr>)"

definition magicBytesForFirstPacket :: "byte list" where
  "magicBytesForFirstPacket = [0x13, 0x09, 0x15, 0x01, 0x10, 0x00, 0x00, 0x00, 0x42]"

definition magicBytesForSecondPacket :: "byte list" where
  "magicBytesForSecondPacket = [0x20, 0x08, 0x15, 0x09, 0x0b, 0xac, 0x29, 0x26]"

definition stopPacket :: "byte list" where
  "stopPacket = [0x1f, 0x05, 0x15, 0x10, 0x49]"

text \<open>
  An exception that reaches the end of an \<open>async\<close> function rejects its promise: the
  first component of the result says whether the promise is rejected.
\<close>

definition rejected_if_thrown :: "scale \<Rightarrow> bool \<times> scale" where
  "rejected_if_thrown s = (thrown s, s \<lparr> thrown := False \<rparr>)"

text \<open>\<open>wok\<close> says whether the write this call may make succeeds.\<close>

definition handlePacket :: "bool \<Rightarrow> packet \<Rightarrow> scale \<Rightarrow> bool \<times> scale" where
  "handlePacket wok p s =
     (let s1 = emit Data [PacketArg p] s
      in if thrown s1 then rejected_if_thrown s1
         else if packetId p = Num 0x12 then sendCommand wok magicBytesForFirstPacket s1
         else if packetId p = Num 0x14 then sendCommand wok magicBytesForSecondPacket s1
         else if packetId p = Num 0x10 then
           (if flag_of p = Num 0 then
              rejected_if_thrown (emit Liveupdate [ValueArg (get_prop p ''weightValue'')] s1)
            else if flag_of p = Num 1 then
              (case sendCommand wok stopPacket s1 of
                 (True, s2) \<Rightarrow> (True, s2)
               | (False, s2) \<Rightarrow>
                   rejected_if_thrown
                     (emit Measurement [ValueArg (get_prop p ''weightValue'')] s2))
            else (False, s1))
         else (False, s1 \<lparr> logged := logged s1 @ [WarnUnknownPacket] \<rparr>))"

subsection \<open>destroy and stopListening\<close>

text \<open>
  Both are \<open>async\<close> and suspend at \<open>await this.eventChar.stopNotifications()\<close>.
  \<open>stopListening\<close> and \<open>destroy\<close> are what a call does up to there: \<open>sok\<close> is the
  result that the \<open>stopNotifications\<close> call, if one is made, will have. The
  \<open>_resume\<close> functions are what happens when the oldest call in flight settles: on
  success \<open>eventChar\<close> is cleared, on failure the exception is caught in \<open>destroy\<close> and
  logged. The first component of a \<open>_resume\<close> result says whether the promise is
  rejected.
\<close>

definition stopListening :: "bool \<Rightarrow> scale \<Rightarrow> scale" where
  "stopListening sok s =
     (if \<not> eventChar s then s
      else s \<lparr> transport := transport s @ [StopNotifications sok],
               inFlight := inFlight s @ [sok] \<rparr>)"

definition destroy :: "bool \<Rightarrow> scale \<Rightarrow> scale" where
  "destroy sok s = stopListening sok (clearTimer s)"

definition stopListening_resume :: "scale \<Rightarrow> bool \<times> scale" where
  "stopListening_resume s =
     (case inFlight s of
        [] \<Rightarrow> (False, s)
      | ok # rest \<Rightarrow>
          if ok then (False, s \<lparr> inFlight := rest, eventChar := False \<rparr>)
          else (True, s \<lparr> inFlight := rest \<rparr>))"

definition destroy_resume :: "scale \<Rightarrow> bool \<times> scale" where
  "destroy_resume s =
     (case stopListening_resume s of
        (True, s') \<Rightarrow> (False, s' \<lparr> logged := logged s' @ [DebugDestroyError] \<rparr>)
      | (False, s') \<Rightarrow> (False, s'))"

subsection \<open>startListening and its closures\<close>

text \<open>The closures of call \<open>c\<close>.\<close>

definition handleValueChange :: "nat \<Rightarrow> byte list \<Rightarrow> bool \<Rightarrow> scale \<Rightarrow> scale" where
  "handleValueChange c buf wok s =
     (if didTimeout s c then s
      else case handlePacket wok (parseIncomingPacket buf) s of
             (True, s') \<Rightarrow> s' \<lparr> logged := logged s' @ [WarnHandlingPacket] \<rparr>
           | (False, s') \<Rightarrow> s')"

text \<open>
  If a \<open>timeout\<close> listener throws, the exception leaves \<open>handleTimeout\<close>, and with it
  the timer callback, before the handler is detached.
\<close>

definition handleTimeout :: "nat \<Rightarrow> bool \<Rightarrow> scale \<Rightarrow> scale" where
  "handleTimeout c sok s =
     (let s1 = emit Timeout []
                 (s \<lparr> logged := logged s @ [WarnTimeout],
                      didTimeout := (didTimeout s)(c := True) \<rparr>)
      in if thrown s1 then s1 \<lparr> thrown := False, uncaught := Suc (uncaught s1) \<rparr>
         else destroy sok
                (s1 \<lparr> valuechanged := remove1 c (valuechanged s1),
                      transport := transport s1 @ [OffValueChanged] \<rparr>))"

text \<open>
  \<open>svc_ok\<close>: the service and both characteristics are found; \<open>start_ok\<close>:
  \<open>startNotifications\<close> succeeds. The first component says whether the promise is
  rejected. The handler is attached before \<open>startNotifications\<close> is awaited and stays
  attached when that fails.
\<close>

definition startListening :: "bool \<Rightarrow> bool \<Rightarrow> scale \<Rightarrow> bool \<times> scale" where
  "startListening svc_ok start_ok s =
     (if eventChar s then (False, s)
      else if \<not> svc_ok then (True, s)
      else
        (let c = nextCall s;
             s1 = s \<lparr> nextCall := Suc c, didTimeout := (didTimeout s)(c := False),
                      valuechanged := valuechanged s @ [c],
                      transport := transport s @ [OnValueChanged] \<rparr>
         in if \<not> start_ok then
              (True, s1 \<lparr> transport := transport s1 @ [StartNotifications False] \<rparr>)
            else
              (False, on Data (Some (ResetTimer c))
                 (resetTimer c (s1 \<lparr> transport := transport s1 @ [StartNotifications True],
                                    eventChar := True \<rparr>)))))"

subsection \<open>What the surroundings do to a session\<close>

text \<open>
  \<open>ValueChanged buf wok\<close>: the characteristic notifies \<open>buf\<close>; the event goes to every
  \<open>handleValueChange\<close> attached when it is raised, in the order attached.
  \<open>TimerFired t sok\<close>: the runtime runs the callback of timer \<open>t\<close>, which it does only
  for a timer still pending; \<open>sok\<close> is the result of the \<open>stopNotifications\<close> call
  that the callback may make. \<open>StopSettled\<close>: the oldest \<open>stopNotifications\<close> call in
  flight settles.
\<close>

datatype env_event = ValueChanged "byte list" bool | TimerFired nat bool | StopSettled

fun step :: "env_event \<Rightarrow> scale \<Rightarrow> scale" where
  "step (ValueChanged buf wok) s =
     fold (\<lambda>c. handleValueChange c buf wok) (valuechanged s) s"
| "step (TimerFired t sok) s =
     (if t \<in> set (pending s)
      then handleTimeout (timerCallback s t) sok (s \<lparr> pending := removeAll t (pending s) \<rparr>)
      else s)"
| "step StopSettled s = snd (destroy_resume s)"

fun run :: "env_event list \<Rightarrow> scale \<Rightarrow> scale" where
  "run [] s = s"
| "run (ev # evs) s = run evs (step ev s)"

text \<open>
  Three properties for stating results about sessions. \<open>timer_inv\<close>: the only timer
  that can be pending is the one in \<open>timeoutHandle\<close>. \<open>plain\<close>: the listener is
  neither a closure made by \<open>once\<close> nor a function that throws. \<open>armed n\<close>: a timer made
  after the first \<open>n\<close> is the one in \<open>timeoutHandle\<close> and the only one pending.
\<close>

definition timer_inv :: "scale \<Rightarrow> bool" where
  "timer_inv s = (\<forall>t \<in> set (pending s). timeoutHandle s = Some t)"

fun plain :: "handler \<Rightarrow> bool" where
  "plain (Callback n) = True"
| "plain (ResetTimer c) = True"
| "plain RaiseFlag = True"
| "plain _ = False"

definition armed :: "nat \<Rightarrow> scale \<Rightarrow> bool" where
  "armed n s = (n < nextTimer s \<and> pending s = [nextTimer s - 1]
                \<and> timeoutHandle s = Some (nextTimer s - 1))"

section \<open>The lifecycle states of the specification\<close>

text \<open>
  The program keeps no lifecycle state. The four states of the specification are read
  off what the session has done, in the specification's words: it is \<open>Closed\<close>, for
  good, once \<open>timeout\<close> has been emitted or the unsubscription has been called;
  otherwise it is \<open>Connecting\<close> until the notifications are started; from then on it
  is \<open>AwaitingHandshake\<close> until the answer to a \<open>HandshakeAck\<close> has been sent, and
  \<open>Streaming\<close> after that.
\<close>

datatype spec_state = Connecting | AwaitingHandshake | Streaming | Closed

definition spec_lifecycle :: "scale \<Rightarrow> spec_state" where
  "spec_lifecycle s =
     (if (Timeout, []) \<in> set (emitted s)
         \<or> StopNotifications True \<in> set (transport s)
         \<or> StopNotifications False \<in> set (transport s) then Closed
      else if \<not> eventChar s then Connecting
      else if WriteValue magicBytesForSecondPacket True \<in> set (transport s)
              \<or> WriteValue magicBytesForSecondPacket False \<in> set (transport s) then Streaming
      else AwaitingHandshake)"

section \<open>runMessageLoop\<close>

text \<open>
  What the \<open>onConnect\<close> callback of the caller does with the instance it is handed:
  a sequence of registrations, after which it returns or throws.
\<close>

datatype api_call =
    CallOn event "handler option"
  | CallOnce event "handler option"
  | CallOff event "handler option"

fun api :: "api_call \<Rightarrow> scale \<Rightarrow> scale" where
  "api (CallOn e h) s = on e h s"
| "api (CallOnce e h) s = once e h s"
| "api (CallOff e h) s = off e h s"

text \<open>
  One turn of the loop as the surroundings shape it: whether \<open>RenphoScale.connect\<close>
  succeeds, what \<open>onConnect\<close> does, whether \<open>startListening\<close> finds its
  characteristics and starts, and what then arrives at the session.
\<close>

record attempt =
  connect_ok :: bool
  onConnect :: "api_call list"
  onConnect_throws :: bool
  svc_ok :: bool
  start_ok :: bool
  events :: "env_event list"

text \<open>
  \<open>connectAndHandle\<close> is rejected, or resolves with the destructor of its session, or
  stays suspended at \<open>await new Promise\<close> because nothing that arrived raised the flag.
\<close>

datatype outcome = Rejected | Resolved scale | Suspended scale


fun await_flag :: "env_event list \<Rightarrow> scale \<Rightarrow> outcome" where
  "await_flag [] s = Suspended s"
| "await_flag (ev # evs) s =
     (let s' = step ev s
      in if raiseFlag s' = Some True then Resolved s' else await_flag evs s')"

definition connectAndHandle :: "attempt \<Rightarrow> outcome" where
  "connectAndHandle a =
     (if \<not> connect_ok a then Rejected
      else
        (let s1 = on Measurement (Some RaiseFlag) (on Timeout (Some RaiseFlag) new_scale);
             s2 = fold api (onConnect a) s1
         in if onConnect_throws a then Rejected
            else case startListening (svc_ok a) (start_ok a) s2 of
                   (True, s3) \<Rightarrow> Rejected
                 | (False, s3) \<Rightarrow> await_flag (events a) (s3 \<lparr> raiseFlag := Some False \<rparr>)))"

text \<open>
  What \<open>runMessageLoop\<close> itself does, in order. \<open>CallConnectAndHandle i\<close> is the
  \<open>i\<close>-th call of \<open>connectAndHandle\<close>, \<open>DestroySession i\<close> the call of the destructor
  that the \<open>i\<close>-th call returned.
\<close>

datatype sup_action =
    CallConnectAndHandle nat
  | LogWarn
  | LogDebugNext
  | Delay
  | LogInfoDestroying
  | DestroySession nat
  | DestroyBluetooth

text \<open>
  The \<open>while (true)\<close> loop over the outcomes of the successive calls: \<open>i\<close> numbers the
  call, \<open>d\<close> is \<open>destroyScaleSession\<close>. The result is what the loop did, the final
  \<open>destroyScaleSession\<close>, and whether the loop was left by \<open>break\<close>; when the
  outcomes run out or a call stays suspended, the loop has not been left.
\<close>

fun loop :: "bool \<Rightarrow> outcome list \<Rightarrow> nat \<Rightarrow> nat option \<Rightarrow> sup_action list \<times> nat option \<times> bool" where
  "loop run_once [] i d = ([], d, False)"
| "loop run_once (Rejected # os) i d =
     (case loop run_once os (Suc i) d of
        (acts, d', b) \<Rightarrow> (CallConnectAndHandle i # LogWarn # LogDebugNext # Delay # acts, d', b))"
| "loop run_once (Suspended s # os) i d = ([CallConnectAndHandle i], d, False)"
| "loop run_once (Resolved s # os) i d =
     (if run_once then ([CallConnectAndHandle i], Some i, True)
      else case loop run_once os (Suc i) (Some i) of
             (acts, d', b) \<Rightarrow> (CallConnectAndHandle i # LogDebugNext # Delay # acts, d', b))"

text \<open>The \<open>finally\<close> block.\<close>

definition finally_block :: "nat option \<Rightarrow> sup_action list" where
  "finally_block d =
     LogInfoDestroying # (case d of None \<Rightarrow> [] | Some i \<Rightarrow> [DestroySession i]) @ [DestroyBluetooth]"

datatype sup_status = Exited | Failed | Running

text \<open>
  \<open>adapter_ok\<close>: \<open>bluetooth.defaultAdapter()\<close> succeeds. \<open>Exited\<close>: the function
  returned; \<open>Failed\<close>: it was rejected, after the \<open>finally\<close> block; \<open>Running\<close>: it is
  still in the loop.
\<close>

definition runMessageLoop :: "bool \<Rightarrow> bool \<Rightarrow> attempt list \<Rightarrow> sup_action list \<times> sup_status" where
  "runMessageLoop run_once adapter_ok attempts =
     (if \<not> adapter_ok then (finally_block None, Failed)
      else case loop run_once (map connectAndHandle attempts) 0 None of
             (acts, d, True) \<Rightarrow> (acts @ finally_block d, Exited)
           | (acts, d, False) \<Rightarrow> (acts, Running))"


section \<open>The decoder\<close>

lemma wrap32_id: "- 2147483648 \<le> x \<Longrightarrow> x < 2147483648 \<Longrightarrow> wrap32 x = x"
  by (simp add: wrap32_def)

lemma byte_num_eq_iff: "(byte_num a = byte_num b) = (a = b)"
  by (simp add: byte_num_def word_unat_eq_iff del: of_nat_unat)

lemma byte_num_numerals: "byte_num 0 = 0" "byte_num 1 = 1"
  by (simp_all add: byte_num_def)

lemma byte_num_ids: "byte_num 0x12 = 0x12" "byte_num 0x14 = 0x14" "byte_num 0x10 = 0x10"
  by (simp_all add: byte_num_def)

lemma js_shl_byte: "js_shl (Num (byte_num b)) 8 = Num (of_nat (unat b * 256))"
proof -
  have b: "uint b < 256" "0 \<le> uint b" using uint_lt2p [of b] by simp_all
  have e: "byte_num b = of_int (uint b)"
    by (simp add: byte_num_def)
  have f: "\<lfloor>byte_num b\<rfloor> = uint b"
    unfolding e by (rule floor_of_int)
  have n: "0 \<le> byte_num b"
    unfolding byte_num_def by (rule of_nat_0_le_iff)
  have w1: "wrap32 (uint b) = uint b"
  proof (rule wrap32_id)
    show "- 2147483648 \<le> uint b" using b(2) by linarith
    show "uint b < 2147483648" using b(1) by linarith
  qed
  have w2: "wrap32 (uint b * 256) = uint b * 256"
  proof (rule wrap32_id)
    show "- 2147483648 \<le> uint b * 256" using b(2) by linarith
    show "uint b * 256 < 2147483648" using b(1) by linarith
  qed
  show ?thesis by (simp add: js_shl_def f n w1 w2)
qed

lemma buf_at_in: "i < length buf \<Longrightarrow> buf_at buf (int i) = Num (byte_num (buf ! i))"
  by (simp add: buf_at_def)

lemma buf_at_0: "buf_at buf 0 = (case buf of [] \<Rightarrow> Undefined | b # _ \<Rightarrow> Num (byte_num b))"
  by (cases buf) (simp_all add: buf_at_def)

lemma packetId_parse: "packetId (parseIncomingPacket buf) = buf_at buf 0"
  by (simp add: parseIncomingPacket_def Let_def)

lemma data_parse: "data (parseIncomingPacket buf) = buf"
  by (simp add: parseIncomingPacket_def Let_def)

lemma packetId_of_head:
  "buf \<noteq> [] \<Longrightarrow> packetId (parseIncomingPacket buf) = Num (byte_num (hd buf))"
  by (cases buf) (simp_all add: packetId_parse buf_at_0)

lemma variant_of_parse:
  "variant_of (parseIncomingPacket buf) =
     (case buf of [] \<Rightarrow> Unrecognized
      | b # _ \<Rightarrow> if b = 0x12 then HandshakeInit else if b = 0x14 then HandshakeAck
                 else if b = 0x10 then WeightSample else Unrecognized)"
proof (cases buf)
  case Nil
  then show ?thesis by (simp add: variant_of_def packetId_parse buf_at_0)
next
  case (Cons b bs)
  have "(byte_num b = 0x12) = (b = 0x12)" "(byte_num b = 0x14) = (b = 0x14)"
       "(byte_num b = 0x10) = (b = 0x10)"
    using byte_num_eq_iff [of b "0x12"] byte_num_eq_iff [of b "0x14"] byte_num_eq_iff [of b "0x10"]
    by (simp_all only: byte_num_ids)
  then show ?thesis using Cons by (simp add: variant_of_def packetId_parse buf_at_0)
qed

text \<open>
  Claim C7. A frame with id \<open>0x10\<close> and at least six bytes decodes to a packet whose
  \<open>weight\<close> is the big-endian unsigned 16-bit value of bytes 3 and 4 divided by 100,
  and whose settling flag, the \<open>p.data[5]\<close> that \<open>handlePacket\<close> compares with 1, is
  byte 5: the packet counts as settled exactly when byte 5 is 1. The witness is the frame
  with bytes 3 and 4 equal to \<open>0x04, 0x4C\<close> and flag byte 0: weight 11, not settled.
\<close>

theorem weight_sample_decoded:
  assumes "6 \<le> length buf" and "buf ! 0 = 0x10"
  shows "get_prop (parseIncomingPacket buf) ''weight''
           = Num (of_nat (unat (buf ! 3) * 256 + unat (buf ! 4)) / 100)
       \<and> flag_of (parseIncomingPacket buf) = Num (of_nat (unat (buf ! 5)))
       \<and> (flag_of (parseIncomingPacket buf) = Num 1 \<longleftrightarrow> buf ! 5 = 1)
       \<and> variant_of (parseIncomingPacket buf) = WeightSample"
proof -
  have "0 < length buf" using assms(1) by linarith
  then have "buf_at buf (int 0) = Num (byte_num (buf ! 0))"
    by (rule buf_at_in)
  then have b0: "buf_at buf 0 = Num 0x10"
    using assms by (simp add: byte_num_def)
  have "3 < length buf" using assms(1) by linarith
  then have "buf_at buf (int 3) = Num (byte_num (buf ! 3))"
    by (rule buf_at_in)
  then have b3: "buf_at buf 3 = Num (byte_num (buf ! 3))" by simp
  have "4 < length buf" using assms(1) by linarith
  then have "buf_at buf (int 4) = Num (byte_num (buf ! 4))"
    by (rule buf_at_in)
  then have b4: "buf_at buf 4 = Num (byte_num (buf ! 4))" by simp
  have "5 < length buf" using assms(1) by linarith
  then have "buf_at buf (int 5) = Num (byte_num (buf ! 5))"
    by (rule buf_at_in)
  then have b5: "buf_at buf 5 = Num (byte_num (buf ! 5))" by simp
  have "get_prop (parseIncomingPacket buf) ''weight''
           = Num ((of_nat (unat (buf ! 3) * 256) + byte_num (buf ! 4)) / 100)"
    by (simp add: parseIncomingPacket_def Let_def get_prop_def b0 b3 b4 js_shl_byte)
  then have w: "get_prop (parseIncomingPacket buf) ''weight''
           = Num (of_nat (unat (buf ! 3) * 256 + unat (buf ! 4)) / 100)"
    by (simp add: byte_num_def del: of_nat_unat)
  have f: "flag_of (parseIncomingPacket buf) = Num (byte_num (buf ! 5))"
    by (simp add: flag_of_def data_parse b5)
  have s: "flag_of (parseIncomingPacket buf) = Num 1 \<longleftrightarrow> buf ! 5 = 1"
    using byte_num_eq_iff [of "buf ! 5" 1] by (simp add: f byte_num_numerals)
  have v: "variant_of (parseIncomingPacket buf) = WeightSample"
    by (simp add: variant_of_def packetId_parse b0)
  from w f s v show ?thesis by (simp add: byte_num_def)
qed

theorem weight_sample_decoded_witness:
  "get_prop (parseIncomingPacket [0x10, 0x0b, 0x15, 0x04, 0x4c, 0x00, 0x99]) ''weight'' = Num 11
   \<and> flag_of (parseIncomingPacket [0x10, 0x0b, 0x15, 0x04, 0x4c, 0x00, 0x99]) \<noteq> Num 1"
  using weight_sample_decoded [of "[0x10, 0x0b, 0x15, 0x04, 0x4c, 0x00, 0x99]"]
  by simp

text \<open>
  Claim C6, as amended. \<open>parseIncomingPacket\<close> has no failing branch: for every
  buffer it returns a packet that carries the whole buffer, with the fields read at
  their offsets (\<open>undefined\<close> where the buffer is too short). The packet is of the
  unrecognised kind exactly when the buffer is empty or its first byte is none of
  \<open>0x12\<close>, \<open>0x14\<close>, \<open>0x10\<close>; only a weight packet gets further properties. A short
  buffer that starts with a recognised id is decoded as that id's packet.
\<close>

theorem decode_total:
  "data (parseIncomingPacket buf) = buf
   \<and> packetId (parseIncomingPacket buf) = buf_at buf 0
   \<and> len (parseIncomingPacket buf) = buf_at buf 1
   \<and> checksum (parseIncomingPacket buf) = buf_at buf (int (length buf) - 1)
   \<and> (variant_of (parseIncomingPacket buf) = Unrecognized
        \<longleftrightarrow> buf = [] \<or> hd buf \<notin> {0x12, 0x14, 0x10})
   \<and> (variant_of (parseIncomingPacket buf) \<noteq> WeightSample
        \<longrightarrow> props (parseIncomingPacket buf) = [])"
proof -
  have v: "variant_of (parseIncomingPacket buf) = Unrecognized
        \<longleftrightarrow> buf = [] \<or> hd buf \<notin> {0x12, 0x14, 0x10}"
    by (cases buf) (simp_all add: variant_of_parse)
  have p: "variant_of (parseIncomingPacket buf) \<noteq> WeightSample
        \<longrightarrow> props (parseIncomingPacket buf) = []"
    by (simp add: variant_of_def parseIncomingPacket_def Let_def)
  show ?thesis using v p by (simp add: parseIncomingPacket_def Let_def)
qed

theorem decode_total_witness:
  "variant_of (parseIncomingPacket [0x55, 0x01]) = Unrecognized
   \<and> props (parseIncomingPacket [0x55, 0x01]) = []
   \<and> data (parseIncomingPacket [0x55, 0x01]) = [0x55, 0x01]
   \<and> variant_of (parseIncomingPacket []) = Unrecognized
   \<and> packetId (parseIncomingPacket []) = Undefined"
  using decode_total [of "[0x55, 0x01]"] decode_total [of "[]"]
  by (simp add: buf_at_def)

text \<open>
  Claim C6 as stated fails: the one-byte buffer \<open>[0x12]\<close> is shorter than three bytes
  and is decoded as the first handshake packet, not as an unrecognised one.
\<close>

theorem short_buffer_counterexample:
  "length [0x12 :: byte] < 3 \<and> variant_of (parseIncomingPacket [0x12]) = HandshakeInit
   \<and> variant_of (parseIncomingPacket [0x12]) \<noteq> Unrecognized"
  by (simp add: variant_of_parse)

section \<open>The event emitter\<close>

text \<open>
  Claim C4 fails on the program. With \<open>once(timeout, f1)\<close> and then \<open>on(timeout, f2)\<close>
  the array holds the wrapper of \<open>f1\<close> and \<open>f2\<close> when \<open>emit\<close> is called. The wrapper,
  called at index 0, splices itself out, so \<open>f2\<close> moves to index 0 and index 1 is
  gone: \<open>forEach\<close> ends without calling \<open>f2\<close>, which is still registered afterwards.
\<close>

theorem emit_passes_over_listener_after_once:
  "listeners (on Timeout (Some (Callback 2)) (once Timeout (Some (Callback 1)) new_scale)) Timeout
     = [OnceWrapper 0 Timeout (Callback 1), Callback 2]
   \<and> calls (emit Timeout [] (on Timeout (Some (Callback 2))
                               (once Timeout (Some (Callback 1)) new_scale)))
     = [(1, [])]
   \<and> listeners (emit Timeout [] (on Timeout (Some (Callback 2))
                               (once Timeout (Some (Callback 1)) new_scale))) Timeout
     = [Callback 2]"
  by (simp add: emit_def on_def once_def off_def new_scale_def)

subsection \<open>What a listener call leaves alone\<close>

lemma clearTimer_frame:
  "transport (clearTimer s) = transport s" "emitted (clearTimer s) = emitted s"
  "didTimeout (clearTimer s) = didTimeout s" "valuechanged (clearTimer s) = valuechanged s"
  "eventChar (clearTimer s) = eventChar s" "listeners (clearTimer s) = listeners s"
  "calls (clearTimer s) = calls s" "logged (clearTimer s) = logged s"
  "raiseFlag (clearTimer s) = raiseFlag s" "thrown (clearTimer s) = thrown s"
  "inFlight (clearTimer s) = inFlight s"
  by (simp_all add: clearTimer_def split: option.splits)

lemma resetTimer_frame:
  "transport (resetTimer c s) = transport s" "emitted (resetTimer c s) = emitted s"
  "didTimeout (resetTimer c s) = didTimeout s" "valuechanged (resetTimer c s) = valuechanged s"
  "eventChar (resetTimer c s) = eventChar s" "listeners (resetTimer c s) = listeners s"
  "calls (resetTimer c s) = calls s" "logged (resetTimer c s) = logged s"
  "raiseFlag (resetTimer c s) = raiseFlag s" "thrown (resetTimer c s) = thrown s"
  "inFlight (resetTimer c s) = inFlight s"
  by (simp_all add: resetTimer_def Let_def clearTimer_frame)

lemma off_frame:
  "transport (off e h s) = transport s" "emitted (off e h s) = emitted s"
  "didTimeout (off e h s) = didTimeout s" "valuechanged (off e h s) = valuechanged s"
  "eventChar (off e h s) = eventChar s" "logged (off e h s) = logged s"
  "calls (off e h s) = calls s" "raiseFlag (off e h s) = raiseFlag s"
  "timeoutHandle (off e h s) = timeoutHandle s" "pending (off e h s) = pending s"
  "nextTimer (off e h s) = nextTimer s" "thrown (off e h s) = thrown s"
  "inFlight (off e h s) = inFlight s"
  by (simp_all add: off_def split: option.splits)

lemma invoke_frame:
  "transport (invoke h args s) = transport s \<and> emitted (invoke h args s) = emitted s
   \<and> didTimeout (invoke h args s) = didTimeout s
   \<and> valuechanged (invoke h args s) = valuechanged s
   \<and> eventChar (invoke h args s) = eventChar s \<and> logged (invoke h args s) = logged s
   \<and> inFlight (invoke h args s) = inFlight s"
  by (induction h args s rule: invoke.induct)
     (simp_all add: off_frame resetTimer_frame split: option.splits)

lemma forEach_frame:
  "transport (forEach e args k n s) = transport s \<and> emitted (forEach e args k n s) = emitted s
   \<and> didTimeout (forEach e args k n s) = didTimeout s
   \<and> valuechanged (forEach e args k n s) = valuechanged s
   \<and> eventChar (forEach e args k n s) = eventChar s \<and> logged (forEach e args k n s) = logged s
   \<and> inFlight (forEach e args k n s) = inFlight s"
  by (induction n arbitrary: k s) (simp_all add: invoke_frame Let_def)

lemma emit_frame:
  "transport (emit e args s) = transport s" "emitted (emit e args s) = emitted s @ [(e, args)]"
  "didTimeout (emit e args s) = didTimeout s" "valuechanged (emit e args s) = valuechanged s"
  "eventChar (emit e args s) = eventChar s" "logged (emit e args s) = logged s"
  "inFlight (emit e args s) = inFlight s"
  by (simp_all add: emit_def forEach_frame)

subsection \<open>Listeners that return normally\<close>

text \<open>
  No listener call adds a listener, and a listener that cannot throw leaves no
  exception behind; so an \<open>emit\<close> over listeners none of which can throw returns
  normally.
\<close>

lemma off_listeners_subset: "set (listeners (off e h s) e') \<subseteq> set (listeners s e')"
proof (cases h)
  case None
  then show ?thesis by (simp add: off_def)
next
  case (Some f)
  have "set (remove1 f (listeners s e)) \<subseteq> set (listeners s e)"
    by (rule set_remove1_subset)
  then show ?thesis using Some by (simp add: off_def)
qed

lemma invoke_listeners_subset: "set (listeners (invoke h args s) e') \<subseteq> set (listeners s e')"
proof (induction h args s rule: invoke.induct)
  case (3 w e h args s)
  then show ?case using off_listeners_subset [of e "Some (OnceWrapper w e h)" s e'] by auto
qed (simp_all add: resetTimer_frame split: option.splits)

lemma invoke_returns:
  "\<not> may_throw h \<Longrightarrow> \<not> thrown s \<Longrightarrow> \<not> thrown (invoke h args s)"
  by (induction h args s rule: invoke.induct)
     (simp_all add: off_frame resetTimer_frame split: option.splits)

lemma forEach_returns:
  "\<forall>h \<in> set (listeners s e). \<not> may_throw h \<Longrightarrow> \<not> thrown s \<Longrightarrow>
   \<not> thrown (forEach e args k n s)
   \<and> (\<forall>e'. set (listeners (forEach e args k n s) e') \<subseteq> set (listeners s e'))"
proof (induction n arbitrary: k s)
  case 0
  then show ?case by simp
next
  case (Suc n)
  show ?case
  proof (cases "k < length (listeners s e)")
    case True
    let ?s' = "invoke (listeners s e ! k) args s"
    have h: "\<not> may_throw (listeners s e ! k)" using Suc.prems(1) True by simp
    have t: "\<not> thrown ?s'" using h Suc.prems(2) by (rule invoke_returns)
    have l: "set (listeners ?s' e') \<subseteq> set (listeners s e')" for e'
      by (rule invoke_listeners_subset)
    have "\<forall>h \<in> set (listeners ?s' e). \<not> may_throw h" using Suc.prems(1) l by blast
    from Suc.IH [OF this t, of "Suc k"] l
    have "\<not> thrown (forEach e args (Suc k) n ?s')
          \<and> (\<forall>e'. set (listeners (forEach e args (Suc k) n ?s') e') \<subseteq> set (listeners s e'))"
      by blast
    then show ?thesis using True t by (simp add: Let_def)
  next
    case False
    then show ?thesis using Suc.IH [OF Suc.prems, of "Suc k"] by simp
  qed
qed

lemma emit_returns:
  assumes "\<forall>h \<in> set (listeners s e). \<not> may_throw h" and "\<not> thrown s"
  shows "\<not> thrown (emit e args s)"
    and "set (listeners (emit e args s) e') \<subseteq> set (listeners s e')"
  using forEach_returns [of "s \<lparr> emitted := emitted s @ [(e, args)] \<rparr>" e args 0
      "length (listeners s e)"] assms
  by (simp_all add: emit_def)

section \<open>The session\<close>

subsection \<open>Handling one packet\<close>

text \<open>
  What the handler of a call that has not timed out does with a frame whose id is
  \<open>0x12\<close> or \<open>0x14\<close>, when the \<open>data\<close> listeners return normally: it emits \<open>data\<close>
  and writes the answer, and touches nothing else of what is listed.
\<close>

lemma handleValueChange_handshake:
  assumes "\<not> didTimeout s c" and "\<not> thrown s"
    and "\<forall>h \<in> set (listeners s Data). \<not> may_throw h"
    and "packetId (parseIncomingPacket buf) = Num 0x12 \<and> m = magicBytesForFirstPacket
         \<or> packetId (parseIncomingPacket buf) = Num 0x14 \<and> m = magicBytesForSecondPacket"
  shows "transport (handleValueChange c buf wok s) = transport s @ [WriteValue m wok]"
    and "emitted (handleValueChange c buf wok s)
           = emitted s @ [(Data, [PacketArg (parseIncomingPacket buf)])]"
    and "eventChar (handleValueChange c buf wok s) = eventChar s"
    and "didTimeout (handleValueChange c buf wok s) = didTimeout s"
    and "\<not> thrown (handleValueChange c buf wok s)"
    and "set (listeners (handleValueChange c buf wok s) Data) \<subseteq> set (listeners s Data)"
proof -
  let ?p = "parseIncomingPacket buf"
  let ?s1 = "emit Data [PacketArg ?p] s"
  have t: "\<not> thrown ?s1" and l: "set (listeners ?s1 Data) \<subseteq> set (listeners s Data)"
    using emit_returns [OF assms(3,2)] by simp_all
  have h: "handlePacket wok ?p s = sendCommand wok m ?s1"
    using assms(4) t by (auto simp add: handlePacket_def Let_def)
  have v: "handleValueChange c buf wok s
             = (if wok then snd (sendCommand wok m ?s1)
                else snd (sendCommand wok m ?s1)
                       \<lparr> logged := logged (snd (sendCommand wok m ?s1)) @ [WarnHandlingPacket] \<rparr>)"
    using assms(1) h by (simp add: handleValueChange_def sendCommand_def)
  show "transport (handleValueChange c buf wok s) = transport s @ [WriteValue m wok]"
    and "emitted (handleValueChange c buf wok s) = emitted s @ [(Data, [PacketArg ?p])]"
    and "eventChar (handleValueChange c buf wok s) = eventChar s"
    and "didTimeout (handleValueChange c buf wok s) = didTimeout s"
    and "\<not> thrown (handleValueChange c buf wok s)"
    and "set (listeners (handleValueChange c buf wok s) Data) \<subseteq> set (listeners s Data)"
    using t l by (simp_all add: v sendCommand_def emit_frame)
qed

lemma spec_lifecycle_open:
  "(spec_lifecycle s = AwaitingHandshake \<or> spec_lifecycle s = Streaming)
   \<longleftrightarrow> (Timeout, []) \<notin> set (emitted s) \<and> StopNotifications True \<notin> set (transport s)
       \<and> StopNotifications False \<notin> set (transport s) \<and> eventChar s"
  by (auto simp add: spec_lifecycle_def)

lemma spec_lifecycle_streaming:
  "(Timeout, []) \<notin> set (emitted s) \<Longrightarrow> StopNotifications True \<notin> set (transport s) \<Longrightarrow>
   StopNotifications False \<notin> set (transport s) \<Longrightarrow> eventChar s \<Longrightarrow>
   WriteValue magicBytesForSecondPacket w \<in> set (transport s) \<Longrightarrow>
   spec_lifecycle s = Streaming"
  by (cases w) (auto simp add: spec_lifecycle_def)

text \<open>
  Claim C8, as amended. In a session that is open (awaiting the handshake or streaming)
  and whose \<open>data\<close> listeners cannot throw, the notification handler of a call that has
  not timed out receives a frame with id \<open>0x12\<close> and then a frame with id \<open>0x14\<close>. It
  adds exactly two calls to the transport log, in this order: the write of the fixed
  nine-byte frame, then the write of the fixed eight-byte frame (\<open>w1\<close> and \<open>w2\<close> are
  the outcomes of the writes, which the transport decides). The first frame leaves the
  lifecycle state as it was; after the second the session is in \<open>Streaming\<close>: not
  closed, its notifications started, the answer to the \<open>HandshakeAck\<close> sent.
\<close>

theorem handshake_two_writes:
  assumes "\<not> didTimeout s c" and "\<not> thrown s"
    and "\<forall>h \<in> set (listeners s Data). \<not> may_throw h"
    and "spec_lifecycle s = AwaitingHandshake \<or> spec_lifecycle s = Streaming"
    and "buf1 \<noteq> []" and "hd buf1 = 0x12" and "buf2 \<noteq> []" and "hd buf2 = 0x14"
  shows "transport (handleValueChange c buf2 w2 (handleValueChange c buf1 w1 s))
           = transport s @ [WriteValue [0x13, 0x09, 0x15, 0x01, 0x10, 0x00, 0x00, 0x00, 0x42] w1,
                            WriteValue [0x20, 0x08, 0x15, 0x09, 0x0b, 0xac, 0x29, 0x26] w2]
       \<and> spec_lifecycle (handleValueChange c buf1 w1 s) = spec_lifecycle s
       \<and> spec_lifecycle (handleValueChange c buf2 w2 (handleValueChange c buf1 w1 s))
           = Streaming"
proof -
  let ?s1 = "handleValueChange c buf1 w1 s"
  let ?s2 = "handleValueChange c buf2 w2 ?s1"
  have p1: "packetId (parseIncomingPacket buf1) = Num 0x12 \<and>
            magicBytesForFirstPacket = magicBytesForFirstPacket
          \<or> packetId (parseIncomingPacket buf1) = Num 0x14 \<and>
            magicBytesForFirstPacket = magicBytesForSecondPacket"
    using assms(5,6) by (simp add: packetId_of_head byte_num_ids)
  have p2: "packetId (parseIncomingPacket buf2) = Num 0x12 \<and>
            magicBytesForSecondPacket = magicBytesForFirstPacket
          \<or> packetId (parseIncomingPacket buf2) = Num 0x14 \<and>
            magicBytesForSecondPacket = magicBytesForSecondPacket"
    using assms(7,8) by (simp add: packetId_of_head byte_num_ids)
  note a = handleValueChange_handshake [OF assms(1,2,3) p1, of w1]
  have d1: "\<not> didTimeout ?s1 c" using a(4) assms(1) by simp
  have l1: "\<forall>h \<in> set (listeners ?s1 Data). \<not> may_throw h" using a(6) assms(3) by blast
  note b = handleValueChange_handshake [OF d1 a(5) l1 p2, of w2]
  have tr: "transport ?s2 = transport s @ [WriteValue magicBytesForFirstPacket w1,
                                             WriteValue magicBytesForSecondPacket w2]"
    using a(1) b(1) by simp
  have em: "emitted ?s2 = emitted s @ [(Data, [PacketArg (parseIncomingPacket buf1)]),
                                         (Data, [PacketArg (parseIncomingPacket buf2)])]"
    using a(2) b(2) by simp
  have ev: "eventChar ?s2 = eventChar s" using a(3) b(3) by simp
  have o: "(Timeout, []) \<notin> set (emitted s)" "StopNotifications True \<notin> set (transport s)"
    "StopNotifications False \<notin> set (transport s)" "eventChar s"
    using assms(4) spec_lifecycle_open [of s] by simp_all
  have st1: "spec_lifecycle ?s1 = spec_lifecycle s"
    using o by (simp add: spec_lifecycle_def a(1,2,3) magicBytesForFirstPacket_def
        magicBytesForSecondPacket_def)
  have "spec_lifecycle ?s2 = Streaming"
  proof (rule spec_lifecycle_streaming [where w = w2])
    show "(Timeout, []) \<notin> set (emitted ?s2)" using o(1) by (simp add: em)
    show "StopNotifications True \<notin> set (transport ?s2)" using o(2) by (simp add: tr)
    show "StopNotifications False \<notin> set (transport ?s2)" using o(3) by (simp add: tr)
    show "eventChar ?s2" using o(4) by (simp add: ev)
    show "WriteValue magicBytesForSecondPacket w2 \<in> set (transport ?s2)" by (simp add: tr)
  qed
  then show ?thesis
    using tr st1 by (simp add: magicBytesForFirstPacket_def magicBytesForSecondPacket_def)
qed

theorem handshake_two_writes_witness:
  "spec_lifecycle (snd (startListening True True new_scale)) = AwaitingHandshake
   \<and> transport (handleValueChange 0 [0x14, 0x0b, 0x15, 0x01, 0x35] True
        (handleValueChange 0 [0x12, 0x0f, 0x15, 0x00, 0x77] True
           (snd (startListening True True new_scale))))
     = [OnValueChanged, StartNotifications True,
        WriteValue [0x13, 0x09, 0x15, 0x01, 0x10, 0x00, 0x00, 0x00, 0x42] True,
        WriteValue [0x20, 0x08, 0x15, 0x09, 0x0b, 0xac, 0x29, 0x26] True]
   \<and> spec_lifecycle (handleValueChange 0 [0x12, 0x0f, 0x15, 0x00, 0x77] True
        (snd (startListening True True new_scale)))
     = AwaitingHandshake
   \<and> spec_lifecycle (handleValueChange 0 [0x14, 0x0b, 0x15, 0x01, 0x35] True
        (handleValueChange 0 [0x12, 0x0f, 0x15, 0x00, 0x77] True
           (snd (startListening True True new_scale))))
     = Streaming"
proof -
  have d: "\<not> didTimeout (snd (startListening True True new_scale)) 0"
    and h: "\<not> thrown (snd (startListening True True new_scale))"
    and l: "\<forall>h \<in> set (listeners (snd (startListening True True new_scale)) Data). \<not> may_throw h"
    and o: "spec_lifecycle (snd (startListening True True new_scale)) = AwaitingHandshake"
    and t: "transport (snd (startListening True True new_scale))
              = [OnValueChanged, StartNotifications True]"
    by code_simp+
  show ?thesis
    using handshake_two_writes [OF d h l, of "[0x12, 0x0f, 0x15, 0x00, 0x77]"
        "[0x14, 0x0b, 0x15, 0x01, 0x35]" True True] o t
    by simp
qed

text \<open>
  Claim C8 as stated fails. The caller has registered a \<open>data\<close> listener that throws.
  Both handshake frames are received; each time the exception leaves \<open>emit\<close> and
  \<open>handlePacket\<close> before the \<open>switch\<close>, is caught by \<open>handleValueChange\<close> and
  logged, and nothing is written.
\<close>

theorem throwing_listener_blocks_handshake_counterexample:
  "transport (run [ValueChanged [0x12, 0x0f, 0x15, 0x00, 0x77] True,
                   ValueChanged [0x14, 0x0b, 0x15, 0x01, 0x35] True]
               (snd (startListening True True (on Data (Some (Faulty 1)) new_scale))))
     = [OnValueChanged, StartNotifications True]
   \<and> logged (run [ValueChanged [0x12, 0x0f, 0x15, 0x00, 0x77] True,
                   ValueChanged [0x14, 0x0b, 0x15, 0x01, 0x35] True]
               (snd (startListening True True (on Data (Some (Faulty 1)) new_scale))))
     = [WarnHandlingPacket, WarnHandlingPacket]"
  by code_simp

text \<open>
  No decoded packet has a property \<open>weightValue\<close>, so every \<open>liveupdate\<close> and every
  \<open>measurement\<close> carries \<open>undefined\<close>: for any settled weight frame that the handler
  of a call that has not timed out receives, with \<open>data\<close> listeners that cannot throw
  and the write succeeding, the session writes the stop frame once and emits \<open>data\<close>
  and then \<open>measurement\<close> with \<open>undefined\<close>.
\<close>

lemma weightValue_undefined: "get_prop (parseIncomingPacket buf) ''weightValue'' = Undefined"
  by (simp add: parseIncomingPacket_def Let_def get_prop_def)

lemma settled_frame_handled:
  assumes "\<not> didTimeout s c" and "\<not> thrown s"
    and "\<forall>h \<in> set (listeners s Data). \<not> may_throw h"
    and "6 \<le> length buf" and "buf ! 0 = 0x10" and "buf ! 5 = 1"
  shows "transport (handleValueChange c buf True s) = transport s @ [WriteValue stopPacket True]"
    and "emitted (handleValueChange c buf True s)
           = emitted s @ [(Data, [PacketArg (parseIncomingPacket buf)]),
                          (Measurement, [ValueArg Undefined])]"
proof -
  let ?p = "parseIncomingPacket buf"
  let ?s1 = "emit Data [PacketArg ?p] s"
  let ?s2 = "emit Measurement [ValueArg Undefined]
               (?s1 \<lparr> transport := transport ?s1 @ [WriteValue stopPacket True] \<rparr>)"
  have "0 < length buf" using assms(4) by linarith
  then have "buf_at buf (int 0) = Num (byte_num (buf ! 0))" by (rule buf_at_in)
  then have i: "packetId ?p = Num 0x10"
    using assms(5) by (simp add: packetId_parse byte_num_ids)
  have "5 < length buf" using assms(4) by linarith
  then have "buf_at buf (int 5) = Num (byte_num (buf ! 5))" by (rule buf_at_in)
  then have f: "flag_of ?p = Num 1"
    using assms(6) by (simp add: flag_of_def data_parse byte_num_numerals)
  have t: "\<not> thrown ?s1" using emit_returns(1) [OF assms(3,2)] .
  have h: "handlePacket True ?p s = rejected_if_thrown ?s2"
    using i f t by (simp add: handlePacket_def Let_def sendCommand_def weightValue_undefined)
  have tr: "transport (handleValueChange c buf True s) = transport ?s2"
    and em: "emitted (handleValueChange c buf True s) = emitted ?s2"
    using assms(1) by (simp_all add: handleValueChange_def h rejected_if_thrown_def split: bool.splits)
  show "transport (handleValueChange c buf True s) = transport s @ [WriteValue stopPacket True]"
    by (simp add: tr emit_frame)
  show "emitted (handleValueChange c buf True s)
           = emitted s @ [(Data, [PacketArg ?p]), (Measurement, [ValueArg Undefined])]"
    by (simp add: em emit_frame)
qed

text \<open>
  Claim C1 fails on the program in the payload. The settled weight frame below decodes
  to the weight 11, stored under \<open>weight\<close>; \<open>handlePacket\<close> passes \<open>p.weightValue\<close>
  to \<open>emit\<close>, a property the packet does not have. The session writes the stop frame
  once and emits \<open>measurement\<close> once, with no \<open>liveupdate\<close>, but the payload that the
  listener receives is \<open>undefined\<close>.
\<close>

theorem measurement_payload_undefined:
  "get_prop (parseIncomingPacket [0x10, 0x0b, 0x15, 0x04, 0x4c, 0x01, 0x99]) ''weight'' = Num 11
   \<and> emitted (step (ValueChanged [0x10, 0x0b, 0x15, 0x04, 0x4c, 0x01, 0x99] True)
         (snd (startListening True True (on Measurement (Some (Callback 1)) new_scale))))
     = [(Data, [PacketArg (parseIncomingPacket [0x10, 0x0b, 0x15, 0x04, 0x4c, 0x01, 0x99])]),
        (Measurement, [ValueArg Undefined])]
   \<and> calls (step (ValueChanged [0x10, 0x0b, 0x15, 0x04, 0x4c, 0x01, 0x99] True)
         (snd (startListening True True (on Measurement (Some (Callback 1)) new_scale))))
     = [(1, [ValueArg Undefined])]
   \<and> transport (step (ValueChanged [0x10, 0x0b, 0x15, 0x04, 0x4c, 0x01, 0x99] True)
         (snd (startListening True True (on Measurement (Some (Callback 1)) new_scale))))
     = [OnValueChanged, StartNotifications True, WriteValue [0x1f, 0x05, 0x15, 0x10, 0x49] True]"
  by code_simp

subsection \<open>destroy\<close>

lemma destroy_call:
  "timeoutHandle (destroy sok s) = None"
  "pending (destroy sok s) = (case timeoutHandle s of None \<Rightarrow> pending s
                              | Some t \<Rightarrow> removeAll t (pending s))"
  "transport (destroy sok s)
     = (if eventChar s then transport s @ [StopNotifications sok] else transport s)"
  "inFlight (destroy sok s) = (if eventChar s then inFlight s @ [sok] else inFlight s)"
  "eventChar (destroy sok s) = eventChar s"
  "emitted (destroy sok s) = emitted s" "calls (destroy sok s) = calls s"
  "listeners (destroy sok s) = listeners s" "logged (destroy sok s) = logged s"
  "didTimeout (destroy sok s) = didTimeout s" "valuechanged (destroy sok s) = valuechanged s"
  by (simp_all add: destroy_def stopListening_def clearTimer_def split: option.splits)

lemma destroy_resume_frame:
  "emitted (snd (destroy_resume s)) = emitted s" "calls (snd (destroy_resume s)) = calls s"
  "listeners (snd (destroy_resume s)) = listeners s"
  "transport (snd (destroy_resume s)) = transport s"
  "didTimeout (snd (destroy_resume s)) = didTimeout s"
  "valuechanged (snd (destroy_resume s)) = valuechanged s"
  by (simp_all add: destroy_resume_def stopListening_resume_def split: list.splits)

text \<open>
  Claim C5, as amended. \<open>destroy\<close> can be called in any state, any number of times.
  Each call cancels the timer held in \<open>timeoutHandle\<close> and calls
  \<open>stopNotifications\<close> exactly when \<open>eventChar\<close> is still set; it emits nothing,
  calls no listener, and leaves every listener array as it was. When the
  \<open>stopNotifications\<close> call settles, the promise of \<open>destroy\<close> is never rejected: a
  failure is caught and logged and leaves \<open>eventChar\<close> set, a success clears
  \<open>eventChar\<close>; neither emits anything or changes a listener array.
\<close>

theorem destroy_cleanup:
  "timeoutHandle (destroy sok s) = None
   \<and> (\<forall>t. timeoutHandle s = Some t \<longrightarrow> t \<notin> set (pending (destroy sok s)))
   \<and> transport (destroy sok s)
       = (if eventChar s then transport s @ [StopNotifications sok] else transport s)
   \<and> emitted (destroy sok s) = emitted s
   \<and> calls (destroy sok s) = calls s
   \<and> listeners (destroy sok s) = listeners s
   \<and> \<not> fst (destroy_resume s)
   \<and> emitted (snd (destroy_resume s)) = emitted s
   \<and> calls (snd (destroy_resume s)) = calls s
   \<and> listeners (snd (destroy_resume s)) = listeners s
   \<and> (\<forall>rest. inFlight s = False # rest
         \<longrightarrow> logged (snd (destroy_resume s)) = logged s @ [DebugDestroyError]
             \<and> eventChar (snd (destroy_resume s)) = eventChar s)
   \<and> (\<forall>rest. inFlight s = True # rest
         \<longrightarrow> logged (snd (destroy_resume s)) = logged s
             \<and> \<not> eventChar (snd (destroy_resume s)))"
proof -
  have a: "\<forall>t. timeoutHandle s = Some t \<longrightarrow> t \<notin> set (pending (destroy sok s))"
    by (simp add: destroy_call)
  have b: "\<not> fst (destroy_resume s)"
    by (simp add: destroy_resume_def stopListening_resume_def split: list.splits)
  have c: "\<forall>rest. inFlight s = False # rest
         \<longrightarrow> logged (snd (destroy_resume s)) = logged s @ [DebugDestroyError]
             \<and> eventChar (snd (destroy_resume s)) = eventChar s"
    by (simp add: destroy_resume_def stopListening_resume_def)
  have d: "\<forall>rest. inFlight s = True # rest
         \<longrightarrow> logged (snd (destroy_resume s)) = logged s
             \<and> \<not> eventChar (snd (destroy_resume s))"
    by (simp add: destroy_resume_def stopListening_resume_def)
  show ?thesis
    using a b c d by (simp add: destroy_call destroy_resume_frame)
qed

theorem destroy_cleanup_witness:
  "timeoutHandle (snd (startListening True True new_scale)) = Some 0
   \<and> pending (destroy False (snd (startListening True True new_scale))) = []
   \<and> inFlight (destroy False (snd (startListening True True new_scale))) = [False]
   \<and> transport (destroy False (snd (startListening True True new_scale)))
       = [OnValueChanged, StartNotifications True, StopNotifications False]
   \<and> logged (snd (destroy_resume (destroy False (snd (startListening True True new_scale)))))
       = [DebugDestroyError]
   \<and> \<not> fst (destroy_resume (destroy False (snd (startListening True True new_scale))))"
proof -
  have h: "timeoutHandle (snd (startListening True True new_scale)) = Some 0"
    and e: "eventChar (snd (startListening True True new_scale))"
    and p: "pending (destroy False (snd (startListening True True new_scale))) = []"
    and i: "inFlight (destroy False (snd (startListening True True new_scale))) = [False]"
    and l: "logged (destroy False (snd (startListening True True new_scale))) = []"
    and t: "transport (snd (startListening True True new_scale))
              = [OnValueChanged, StartNotifications True]"
    by code_simp+
  show ?thesis
    using destroy_cleanup [of False "snd (startListening True True new_scale)"]
      destroy_cleanup [of True "destroy False (snd (startListening True True new_scale))"]
      h e p i l t
    by simp
qed

text \<open>
  Claim C5 as stated fails: after \<open>destroy\<close>, and after its \<open>stopNotifications\<close> has
  settled, the listeners of a session are all still registered.
\<close>

theorem destroy_keeps_registrations_counterexample:
  "listeners (step StopSettled (destroy True (snd (startListening True True
      (on Liveupdate (Some (Callback 1)) new_scale))))) Liveupdate = [Callback 1]
   \<and> listeners (step StopSettled (destroy True (snd (startListening True True
      (on Liveupdate (Some (Callback 1)) new_scale))))) Data = [ResetTimer 0]
   \<and> eventChar (step StopSettled (destroy True (snd (startListening True True
      (on Liveupdate (Some (Callback 1)) new_scale))))) = False"
  by code_simp

subsection \<open>After the idle timeout\<close>

text \<open>
  The handler of a call that has timed out returns the state as it is. So in an
  instance with one handler attached, after that handler's timer has fired no
  notification changes anything, whether or not the handler was detached.
\<close>

lemma handleValueChange_gated: "didTimeout s c \<Longrightarrow> handleValueChange c buf wok s = s"
  by (simp add: handleValueChange_def)

lemma handleTimeout_gate:
  "didTimeout (handleTimeout c sok s) c"
  "set (valuechanged (handleTimeout c sok s)) \<subseteq> set (valuechanged s)"
  using set_remove1_subset [of c "valuechanged s"]
  by (auto simp add: handleTimeout_def Let_def destroy_call emit_frame)

lemma fold_gated:
  "\<forall>c \<in> set cs. didTimeout s c \<Longrightarrow> fold (\<lambda>c. handleValueChange c buf wok) cs s = s"
  by (induction cs) (simp_all add: handleValueChange_gated)

lemma single_handler_dropped_after_timeout:
  assumes "t \<in> set (pending s)" and "valuechanged s = [timerCallback s t]"
  shows "step (ValueChanged buf wok) (step (TimerFired t sok) s) = step (TimerFired t sok) s"
proof -
  let ?c = "timerCallback s t"
  let ?s0 = "s \<lparr> pending := removeAll t (pending s) \<rparr>"
  let ?s1 = "handleTimeout ?c sok ?s0"
  have d: "didTimeout ?s1 ?c" by (rule handleTimeout_gate)
  have "set (valuechanged ?s1) \<subseteq> {?c}"
    using handleTimeout_gate(2) [of ?c sok ?s0] assms(2) by simp
  then have "\<forall>c \<in> set (valuechanged ?s1). didTimeout ?s1 c" using d by blast
  then have "fold (\<lambda>c. handleValueChange c buf wok) (valuechanged ?s1) ?s1 = ?s1"
    by (rule fold_gated)
  then show ?thesis using assms(1) by simp
qed

text \<open>
  Claim C10 fails on the program. A first \<open>startListening\<close> is rejected because
  \<open>startNotifications\<close> fails; its handler is attached already and stays attached. A
  second \<open>startListening\<close> succeeds, with a handler and a \<open>didTimeout\<close> of its own.
  When the idle timer fires, the second call's flag is set and its handler detached,
  \<open>timeout\<close> is emitted and \<open>destroy\<close> called. The first call's handler is still
  attached and its flag is never set: the settled weight frame delivered afterwards is
  handled, with a \<open>data\<close> and a \<open>measurement\<close> emission and the write of the stop
  frame.
\<close>

theorem stale_handler_after_timeout:
  "fst (startListening True False new_scale)
   \<and> \<not> fst (startListening True True (snd (startListening True False new_scale)))
   \<and> valuechanged (snd (startListening True True (snd (startListening True False new_scale))))
       = [0, 1]
   \<and> emitted (step (TimerFired 0 True)
         (snd (startListening True True (snd (startListening True False new_scale)))))
       = [(Timeout, [])]
   \<and> valuechanged (step (TimerFired 0 True)
         (snd (startListening True True (snd (startListening True False new_scale)))))
       = [0]
   \<and> emitted (run [TimerFired 0 True,
                    ValueChanged [0x10, 0x0b, 0x15, 0x04, 0x4c, 0x01, 0x99] True]
         (snd (startListening True True (snd (startListening True False new_scale)))))
       = [(Timeout, []),
          (Data, [PacketArg (parseIncomingPacket [0x10, 0x0b, 0x15, 0x04, 0x4c, 0x01, 0x99])]),
          (Measurement, [ValueArg Undefined])]
   \<and> transport (run [TimerFired 0 True,
                    ValueChanged [0x10, 0x0b, 0x15, 0x04, 0x4c, 0x01, 0x99] True]
         (snd (startListening True True (snd (startListening True False new_scale)))))
       = [OnValueChanged, StartNotifications False, OnValueChanged, StartNotifications True,
          OffValueChanged, StopNotifications True,
          WriteValue [0x1f, 0x05, 0x15, 0x10, 0x49] True]"
  by code_simp

subsection \<open>Notifications and the idle timer\<close>

lemma clearTimer_timers:
  "timer_inv s \<Longrightarrow> pending (clearTimer s) = []"
  "timeoutHandle (clearTimer s) = None" "nextTimer (clearTimer s) = nextTimer s"
  by (auto simp add: clearTimer_def timer_inv_def removeAll_filter_not_eq filter_empty_conv
      split: option.splits)

lemma resetTimer_timers:
  "timer_inv s \<Longrightarrow> pending (resetTimer c s) = [nextTimer s]"
  "timeoutHandle (resetTimer c s) = Some (nextTimer s)"
  "nextTimer (resetTimer c s) = Suc (nextTimer s)"
  by (simp_all add: resetTimer_def Let_def clearTimer_timers)

lemma timer_inv_resetTimer: "timer_inv s \<Longrightarrow> timer_inv (resetTimer c s)"
  by (simp add: timer_inv_def resetTimer_timers)

lemma timer_inv_invoke: "timer_inv s \<Longrightarrow> timer_inv (invoke h args s)"
proof (induction h args s rule: invoke.induct)
  case (3 w e h args s)
  then show ?case by (simp add: timer_inv_def off_frame)
next
  case (4 c args s)
  then show ?case by (simp add: timer_inv_resetTimer)
qed (simp_all add: timer_inv_def split: option.splits)

lemma timer_inv_startListening:
  "timer_inv new_scale"
  "timer_inv s \<Longrightarrow> timer_inv (snd (startListening found started s))"
proof -
  show "timer_inv new_scale" by (simp add: timer_inv_def new_scale_def)
  assume i: "timer_inv s"
  let ?s1 = "s \<lparr> nextCall := Suc (nextCall s),
                  didTimeout := (didTimeout s)(nextCall s := False),
                  valuechanged := valuechanged s @ [nextCall s],
                  transport := transport s @ [OnValueChanged, StartNotifications True],
                  eventChar := True \<rparr>"
  have "timer_inv ?s1" using i by (simp add: timer_inv_def)
  then have "timer_inv (resetTimer (nextCall s) ?s1)" by (rule timer_inv_resetTimer)
  then have "timer_inv (on Data (Some (ResetTimer (nextCall s))) (resetTimer (nextCall s) ?s1))"
    by (simp add: timer_inv_def on_def)
  then show "timer_inv (snd (startListening found started s))"
    using i by (simp add: startListening_def Let_def timer_inv_def)
qed

text \<open>
  While every listener of the event is plain, the array does not change under
  \<open>forEach\<close> and no call throws: \<open>forEach\<close> calls the listeners from index \<open>k\<close> on,
  one after the other.
\<close>

lemma invoke_plain:
  "plain h \<Longrightarrow> listeners (invoke h args s) = listeners s"
  "plain h \<Longrightarrow> thrown (invoke h args s) = thrown s"
  by (cases h; simp add: resetTimer_frame split: option.splits)+

lemma forEach_plain:
  "\<forall>h \<in> set (listeners s e). plain h \<Longrightarrow> \<not> thrown s \<Longrightarrow>
   forEach e args k n s = fold (\<lambda>h. invoke h args) (take n (drop k (listeners s e))) s"
proof (induction n arbitrary: k s)
  case 0
  then show ?case by simp
next
  case (Suc n)
  show ?case
  proof (cases "k < length (listeners s e)")
    case True
    let ?h = "listeners s e ! k"
    have p: "plain ?h" using Suc.prems(1) True by simp
    have l: "listeners (invoke ?h args s) = listeners s"
      and t: "\<not> thrown (invoke ?h args s)"
      using p Suc.prems(2) by (simp_all add: invoke_plain)
    have d: "drop k (listeners s e) = ?h # drop (Suc k) (listeners s e)"
      using True by (simp add: Cons_nth_drop_Suc)
    have "forEach e args (Suc k) n (invoke ?h args s)
            = fold (\<lambda>h. invoke h args) (take n (drop (Suc k) (listeners s e))) (invoke ?h args s)"
      using Suc.IH [of "invoke ?h args s" "Suc k"] Suc.prems(1) l t by simp
    then show ?thesis using True d t by (simp add: Let_def)
  next
    case False
    then show ?thesis using Suc.IH [of s "Suc k"] Suc.prems by simp
  qed
qed

lemma armed_invoke:
  "plain h \<Longrightarrow> timer_inv s \<Longrightarrow> armed n s \<Longrightarrow> armed n (invoke h args s)"
  by (cases h) (simp_all add: armed_def resetTimer_timers split: option.splits)

lemma armed_fold:
  "\<forall>h \<in> set hs. plain h \<Longrightarrow> timer_inv s \<Longrightarrow> armed n s \<Longrightarrow>
   armed n (fold (\<lambda>h. invoke h args) hs s)"
  by (induction hs arbitrary: s) (simp_all add: armed_invoke timer_inv_invoke)

lemma invoke_other_timers:
  "plain h \<Longrightarrow> \<forall>c. h \<noteq> ResetTimer c \<Longrightarrow> nextTimer (invoke h args s) = nextTimer s"
  by (cases h) (simp_all split: option.splits)

lemma fold_invoke_resets:
  "\<forall>h \<in> set hs. plain h \<Longrightarrow> timer_inv s \<Longrightarrow> ResetTimer c \<in> set hs \<Longrightarrow>
   armed (nextTimer s) (fold (\<lambda>h. invoke h args) hs s)"
proof (induction hs arbitrary: s)
  case Nil
  then show ?case by simp
next
  case (Cons h hs)
  show ?case
  proof (cases "\<exists>c'. h = ResetTimer c'")
    case True
    then obtain c' where h: "h = ResetTimer c'" by blast
    have "armed (nextTimer s) (resetTimer c' s)"
      using Cons.prems(2) by (simp add: armed_def resetTimer_timers)
    then show ?thesis
      using h Cons.prems(1,2) armed_fold [of hs "resetTimer c' s" "nextTimer s" args]
      by (simp add: timer_inv_resetTimer)
  next
    case False
    then have r: "ResetTimer c \<in> set hs" using Cons.prems(3) by auto
    have p: "plain h" using Cons.prems(1) by simp
    have n: "nextTimer (invoke h args s) = nextTimer s"
      using invoke_other_timers [OF p, of args s] False by simp
    show ?thesis
      using Cons.IH [of "invoke h args s"] Cons.prems(1,2) r n
      by (simp add: timer_inv_invoke)
  qed
qed

text \<open>
  In a session whose \<open>data\<close> listeners are plain and include a reset listener, every
  \<open>emit\<close> of \<open>data\<close>, which is how the handling of each notification begins, cancels
  the pending timer and arms a new one.
\<close>

lemma notification_resets_timer:
  assumes "timer_inv s" and "\<not> thrown s"
    and "\<forall>h \<in> set (listeners s Data). plain h" and "ResetTimer c \<in> set (listeners s Data)"
  shows "armed (nextTimer s) (emit Data args s)"
proof -
  let ?s0 = "s \<lparr> emitted := emitted s @ [(Data, args)] \<rparr>"
  have "armed (nextTimer ?s0) (fold (\<lambda>h. invoke h args) (listeners ?s0 Data) ?s0)"
    using assms by (intro fold_invoke_resets [where c = c]) (simp_all add: timer_inv_def)
  then show ?thesis
    using assms(2,3) by (simp add: emit_def forEach_plain)
qed

text \<open>
  When the callback of a pending timer runs, \<open>timeout\<close> is emitted once; if no
  \<open>timeout\<close> listener throws, the handler of the call is detached once and
  \<open>stopNotifications\<close> is called once if \<open>eventChar\<close> is set.
\<close>

lemma timer_fires_once:
  assumes "t \<in> set (pending s)"
  shows "emitted (step (TimerFired t sok) s) = emitted s @ [(Timeout, [])]"
    and "\<not> thrown s \<Longrightarrow> \<forall>h \<in> set (listeners s Timeout). \<not> may_throw h \<Longrightarrow>
         transport (step (TimerFired t sok) s)
           = transport s @ OffValueChanged # (if eventChar s then [StopNotifications sok] else [])"
proof -
  let ?s0 = "s \<lparr> pending := removeAll t (pending s), logged := logged s @ [WarnTimeout],
                  didTimeout := (didTimeout s)(timerCallback s t := True) \<rparr>"
  show "emitted (step (TimerFired t sok) s) = emitted s @ [(Timeout, [])]"
    using assms by (simp add: handleTimeout_def Let_def destroy_call emit_frame)
  assume "\<not> thrown s" and "\<forall>h \<in> set (listeners s Timeout). \<not> may_throw h"
  then have "\<not> thrown (emit Timeout [] ?s0)"
    by (intro emit_returns(1)) simp_all
  then show "transport (step (TimerFired t sok) s)
           = transport s @ OffValueChanged # (if eventChar s then [StopNotifications sok] else [])"
    using assms by (simp add: handleTimeout_def Let_def destroy_call emit_frame)
qed

text \<open>
  Claim C9 fails on the program in its second half, by the defect of claim C4. The
  caller registers \<open>once(data, f)\<close> before \<open>startListening\<close>, which then appends the
  listener that resets the timer. At the first notification the wrapper of \<open>f\<close>
  splices itself out and \<open>forEach\<close> passes over the reset listener: the timer armed by
  \<open>startListening\<close> (number 0) is still the pending one and no new timer was made.
  Without the \<open>once\<close> registration the same notification replaces timer 0 by timer 1.
\<close>

theorem notification_without_timer_reset:
  "listeners (snd (startListening True True (once Data (Some (Callback 1)) new_scale))) Data
     = [OnceWrapper 0 Data (Callback 1), ResetTimer 0]
   \<and> timeoutHandle (step (ValueChanged [0x12, 0x0f, 0x15, 0x00, 0x77] True)
         (snd (startListening True True (once Data (Some (Callback 1)) new_scale)))) = Some 0
   \<and> pending (step (ValueChanged [0x12, 0x0f, 0x15, 0x00, 0x77] True)
         (snd (startListening True True (once Data (Some (Callback 1)) new_scale)))) = [0]
   \<and> nextTimer (step (ValueChanged [0x12, 0x0f, 0x15, 0x00, 0x77] True)
         (snd (startListening True True (once Data (Some (Callback 1)) new_scale)))) = 1
   \<and> timeoutHandle (step (ValueChanged [0x12, 0x0f, 0x15, 0x00, 0x77] True)
         (snd (startListening True True new_scale))) = Some 1
   \<and> pending (step (ValueChanged [0x12, 0x0f, 0x15, 0x00, 0x77] True)
         (snd (startListening True True new_scale))) = [1]"
  by code_simp

section \<open>The supervisor\<close>






text \<open>
  Claim C3 fails on the program. The doc comment of \<open>opts.once\<close> says that with it the
  loop exits after the first iteration, and the claim's parenthesis says the same of a
  first attempt that fails. With run-once set and a first call that is rejected, the
  function does not return: it logs the warning, logs \<open>Next iteration!\<close>, delays and
  calls \<open>connectAndHandle\<close> again, and returns only after the second call has
  resolved.
\<close>

theorem run_once_first_failure_retries:
  "runMessageLoop True True
     [\<lparr> connect_ok = False, onConnect = [], onConnect_throws = False, svc_ok = True,
        start_ok = True, events = [] \<rparr>]
   = ([CallConnectAndHandle 0, LogWarn, LogDebugNext, Delay], Running)
   \<and> runMessageLoop True True
     [\<lparr> connect_ok = False, onConnect = [], onConnect_throws = False, svc_ok = True,
        start_ok = True, events = [] \<rparr>,
      \<lparr> connect_ok = True, onConnect = [], onConnect_throws = False, svc_ok = True,
        start_ok = True, events = [TimerFired 0 True] \<rparr>]
   = ([CallConnectAndHandle 0, LogWarn, LogDebugNext, Delay, CallConnectAndHandle 1,
       LogInfoDestroying, DestroySession 1, DestroyBluetooth], Exited)"
  by code_simp

end
